theory Spec2Isabelle
  imports Main "HOL-Library.Multiset"
begin

section \<open>Data model of shared/idmap\<close>

text \<open>
  The fields of an entry are Go \<open>int64\<close> values. They are modelled as integers, and every
  addition and subtraction that set.go performs on them is wrapped to 64 bits by
  \<open>wrap64\<close>, as the machine does.
\<close>

definition int64 :: "int \<Rightarrow> bool" where
  "int64 x = (- (2 ^ 63) \<le> x \<and> x < 2 ^ 63)"

definition wrap64 :: "int \<Rightarrow> int" where
  "wrap64 x = (x + 2 ^ 63) mod 2 ^ 64 - 2 ^ 63"

record Entry =
  Isuid :: bool
  Isgid :: bool
  Hostid :: int
  Nsid :: int
  Maprange :: int

record IdmapSet =
  Idmap :: "Entry list"

text \<open>
  \<open>IDRange\<close> is declared outside set.go; set.go uses its fields \<open>Isuid\<close>, \<open>Isgid\<close>,
  \<open>Startid\<close> and \<open>Endid\<close>. The two tag fields carry the prefix \<open>range_\<close> here, since the
  names are taken by \<open>Entry\<close>.
\<close>

record IDRange =
  range_Isuid :: bool
  range_Isgid :: bool
  Startid :: int
  Endid :: int

datatype error =
    ErrHostIDIsSubID
  | ErrConflictingMapping
  | ErrParse
  | ErrNotInRange
  | ErrJSON
  | ErrDeepCopy
  | NilDereference

section \<open>Operations of Entry\<close>

text \<open>
  The methods of \<open>Entry\<close> are called by set.go but defined in a file that is not among
  the sources. They follow section 4.1 of the specification.
\<close>

definition shared_tag :: "Entry \<Rightarrow> Entry \<Rightarrow> bool" where
  "shared_tag e other = ((Isuid e \<and> Isuid other) \<or> (Isgid e \<and> Isgid other))"

text \<open>
  Two ranges \<open>[s1, s1 + n1 - 1]\<close> and \<open>[s2, s2 + n2 - 1]\<close> overlap when some ID lies in
  both; a range of non-positive length is empty and overlaps nothing.
\<close>

definition ranges_overlap :: "int \<Rightarrow> int \<Rightarrow> int \<Rightarrow> int \<Rightarrow> bool" where
  "ranges_overlap s1 n1 s2 n2 = (max s1 s2 \<le> min (s1 + n1 - 1) (s2 + n2 - 1))"

text \<open>
  Modelled from the spec: \<open>Entry.Intersects\<close> is missing from the sources. Section 4.1:
  true if the namespace-ID ranges of the two entries overlap and both apply to at least
  one shared tag.
\<close>

definition Entry_Intersects :: "Entry \<Rightarrow> Entry \<Rightarrow> bool" where
  "Entry_Intersects e other =
     (shared_tag e other \<and> ranges_overlap (Nsid e) (Maprange e) (Nsid other) (Maprange other))"

text \<open>
  Modelled from the spec: \<open>Entry.HostidsIntersect\<close> is missing from the sources. Section
  4.1: true if the host-ID ranges overlap for a shared tag.
\<close>

definition Entry_HostidsIntersect :: "Entry \<Rightarrow> Entry \<Rightarrow> bool" where
  "Entry_HostidsIntersect e other =
     (shared_tag e other \<and> ranges_overlap (Hostid e) (Maprange e) (Hostid other) (Maprange other))"

text \<open>
  Modelled from the spec: \<open>Entry.shiftIntoNS\<close> is missing from the sources. Section 4.1:
  a host-side ID inside \<open>[hostID, hostID + mapRange - 1]\<close> is translated to
  \<open>nsID + (id - hostID)\<close>; any other ID fails with \<open>NotInRange\<close>.
\<close>

definition shiftIntoNS :: "Entry \<Rightarrow> int \<Rightarrow> error + int" where
  "shiftIntoNS e id' =
     (if Hostid e \<le> id' \<and> id' \<le> Hostid e + Maprange e - 1
      then Inr (wrap64 (Nsid e + wrap64 (id' - Hostid e)))
      else Inl ErrNotInRange)"

text \<open>
  Modelled from the spec: \<open>Entry.shiftFromNS\<close> is missing from the sources. Section 4.1:
  symmetric to \<open>shiftIntoNS\<close>, from namespace to host.
\<close>

definition shiftFromNS :: "Entry \<Rightarrow> int \<Rightarrow> error + int" where
  "shiftFromNS e id' =
     (if Nsid e \<le> id' \<and> id' \<le> Nsid e + Maprange e - 1
      then Inr (wrap64 (Hostid e + wrap64 (id' - Nsid e)))
      else Inl ErrNotInRange)"

section \<open>Operations of IdmapSet\<close>

subsection \<open>Intersection queries\<close>

fun Intersects :: "IdmapSet \<Rightarrow> Entry \<Rightarrow> bool" where
  "Intersects m i = list_ex (\<lambda>e. Entry_Intersects i e) (Idmap m)"

fun HostidsIntersect :: "IdmapSet \<Rightarrow> Entry \<Rightarrow> bool" where
  "HostidsIntersect m i = list_ex (\<lambda>e. Entry_HostidsIntersect i e) (Idmap m)"

subsection \<open>AddSafe\<close>

text \<open>
  The two pieces that remain of an existing entry \<open>e\<close> once the new entry \<open>i\<close> has been
  cut out of it, with the arithmetic of AddSafe.
\<close>

definition lower_of :: "Entry \<Rightarrow> Entry \<Rightarrow> Entry" where
  "lower_of e i =
     \<lparr> Isuid = Isuid e, Isgid = Isgid e, Hostid = Hostid e, Nsid = Nsid e,
       Maprange = wrap64 (Nsid i - Nsid e) \<rparr>"

definition upper_of :: "Entry \<Rightarrow> Entry \<Rightarrow> Entry" where
  "upper_of e i =
     \<lparr> Isuid = Isuid e, Isgid = Isgid e,
       Hostid = wrap64 (wrap64 (Hostid e + Maprange (lower_of e i)) + Maprange i),
       Nsid = wrap64 (Nsid i + Maprange i),
       Maprange = wrap64 (wrap64 (Maprange e - Maprange i) - Maprange (lower_of e i)) \<rparr>"

text \<open>
  What one intersecting entry contributes to \<open>result\<close>: the lower piece if its range is
  positive, the new entry, the upper piece if its range is positive.
\<close>

definition split_around :: "Entry \<Rightarrow> Entry \<Rightarrow> Entry list" where
  "split_around e i =
     (if Maprange (lower_of e i) > 0 then [lower_of e i] else []) @ [i] @
     (if Maprange (upper_of e i) > 0 then [upper_of e i] else [])"

text \<open>
  The loop of AddSafe over \<open>m.Idmap\<close>, with its local variables \<open>result\<close> and \<open>added\<close>.
  The early return is the \<open>Inl\<close> branch.
\<close>

fun AddSafe_loop :: "Entry \<Rightarrow> Entry list \<Rightarrow> Entry list \<Rightarrow> bool \<Rightarrow> error + (Entry list \<times> bool)" where
  "AddSafe_loop i [] result added = Inr (result, added)"
| "AddSafe_loop i (e # es) result added =
     (if \<not> Entry_Intersects e i then AddSafe_loop i es (result @ [e]) added
      else if Entry_HostidsIntersect e i then Inl ErrHostIDIsSubID
      else AddSafe_loop i es (result @ split_around e i) True)"

text \<open>
  AddSafe returns the set as it is after the call together with the error, if any:
  \<open>m.Idmap\<close> is assigned only after the loop has run to its end.
\<close>

definition AddSafe :: "IdmapSet \<Rightarrow> Entry \<Rightarrow> IdmapSet \<times> error option" where
  "AddSafe m i =
     (case AddSafe_loop i (Idmap m) [] False of
        Inl err \<Rightarrow> (m, Some err)
      | Inr (result, added) \<Rightarrow>
          (m\<lparr>Idmap := (if \<not> added then result @ [i] else result)\<rparr>, None))"

subsection \<open>Append\<close>

text \<open>
  \<open>Entry.parse\<close> is missing from the sources and the specification leaves its grammar to
  the surrounding configuration system, so Append takes the parser as a parameter.
  \<open>Append_parsed\<close> is the body of Append from the outcome of the call to \<open>parse\<close> on.
\<close>

definition Append_parsed :: "IdmapSet \<Rightarrow> error + Entry \<Rightarrow> IdmapSet \<times> error option" where
  "Append_parsed m parsed =
     (case parsed of
        Inl err \<Rightarrow> (m, Some err)
      | Inr e \<Rightarrow>
          if Intersects m e then (m, Some ErrConflictingMapping)
          else (m\<lparr>Idmap := Idmap m @ [e]\<rparr>, None))"

definition Append :: "(string \<Rightarrow> error + Entry) \<Rightarrow> IdmapSet \<Rightarrow> string \<Rightarrow> IdmapSet \<times> error option" where
  "Append parse m s = Append_parsed m (parse s)"

subsection \<open>Sorting\<close>

text \<open>
  \<open>Less\<close> of the set compares the entries at two indices; here it takes the two entries.
\<close>

definition Less :: "Entry \<Rightarrow> Entry \<Rightarrow> bool" where
  "Less a b =
     (if Isuid a \<noteq> Isuid b then Isuid a
      else if Isgid a \<noteq> Isgid b then Isgid a
      else Nsid a < Nsid b)"

definition ByHostID_Less :: "Entry \<Rightarrow> Entry \<Rightarrow> bool" where
  "ByHostID_Less a b = (Hostid a < Hostid b)"

text \<open>
  \<open>sort.Sort\<close> belongs to the Go standard library. The operations that call it take the
  sorting function as a parameter \<open>sortSort\<close>; what the library promises of it is that the
  output is a rearrangement of the input in which no element is \<open>Less\<close> than one before it.
\<close>

definition sort_contract :: "('a \<Rightarrow> 'a \<Rightarrow> bool) \<Rightarrow> ('a list \<Rightarrow> 'a list) \<Rightarrow> bool" where
  "sort_contract lt sortSort =
     (\<forall>xs. mset (sortSort xs) = mset xs \<and> sorted_wrt (\<lambda>a b. \<not> lt b a) (sortSort xs))"

text \<open>
  An instance of the contract: insertion sort, moving each element left past the elements
  it is smaller than.
\<close>

fun insert_by :: "('a \<Rightarrow> 'a \<Rightarrow> bool) \<Rightarrow> 'a \<Rightarrow> 'a list \<Rightarrow> 'a list" where
  "insert_by lt x [] = [x]"
| "insert_by lt x (y # ys) = (if lt x y then x # y # ys else y # insert_by lt x ys)"

definition insertion_sort :: "('a \<Rightarrow> 'a \<Rightarrow> bool) \<Rightarrow> 'a list \<Rightarrow> 'a list" where
  "insertion_sort lt xs = foldl (\<lambda>acc x. insert_by lt x acc) [] xs"

subsection \<open>Equals\<close>

text \<open>The loop of \<open>expandSortIdmap\<close> that fills \<open>newEntries\<close>.\<close>

fun expand_entries :: "Entry list \<Rightarrow> Entry list \<Rightarrow> Entry list" where
  "expand_entries [] newEntries = newEntries"
| "expand_entries (entry # rest) newEntries =
     (if Isuid entry \<and> Isgid entry
      then expand_entries rest
             (newEntries @
              [\<lparr>Isuid = True, Isgid = False, Hostid = Hostid entry, Nsid = Nsid entry,
                Maprange = Maprange entry\<rparr>,
               \<lparr>Isuid = False, Isgid = True, Hostid = Hostid entry, Nsid = Nsid entry,
                Maprange = Maprange entry\<rparr>])
      else expand_entries rest (newEntries @ [entry]))"

text \<open>A \<open>*IdmapSet\<close> that may be nil is an \<open>IdmapSet option\<close>.\<close>

definition expandSortIdmap :: "(Entry list \<Rightarrow> Entry list) \<Rightarrow> IdmapSet option \<Rightarrow> IdmapSet" where
  "expandSortIdmap sortSort input =
     (let input' = (case input of None \<Rightarrow> \<lparr>Idmap = []\<rparr> | Some s \<Rightarrow> s)
      in \<lparr>Idmap = sortSort (expand_entries (Idmap input') [])\<rparr>)"

definition Equals :: "(Entry list \<Rightarrow> Entry list) \<Rightarrow> IdmapSet option \<Rightarrow> IdmapSet option \<Rightarrow> bool" where
  "Equals sortSort m other = (expandSortIdmap sortSort m = expandSortIdmap sortSort other)"

subsection \<open>ValidRanges\<close>

text \<open>
  Modelled from the spec: \<open>util.DeepCopy\<close> is missing from the sources. Section 4.2:
  validRanges works on a copy of the entries.
\<close>

definition DeepCopy :: "IdmapSet \<Rightarrow> error + IdmapSet" where
  "DeepCopy m = Inr m"

text \<open>
  The inner loop: the index of the first range in \<open>ranges\<close> with the tags of \<open>mapEntry\<close>
  that ends right before \<open>mapEntry\<close> starts.
\<close>

fun find_range :: "Entry \<Rightarrow> IDRange list \<Rightarrow> nat \<Rightarrow> nat option" where
  "find_range mapEntry [] k = None"
| "find_range mapEntry (idEntry # rest) k =
     (if Isuid mapEntry \<noteq> range_Isuid idEntry \<or> Isgid mapEntry \<noteq> range_Isgid idEntry
      then find_range mapEntry rest (Suc k)
      else if wrap64 (Endid idEntry + 1) = Nsid mapEntry then Some k
      else find_range mapEntry rest (Suc k))"

text \<open>
  The outer loop. \<open>ranges\<close> holds pointers to distinct records, so extending the record
  found is an update of the list at its index.
\<close>

fun ValidRanges_loop :: "Entry list \<Rightarrow> IDRange list \<Rightarrow> IDRange list" where
  "ValidRanges_loop [] ranges = ranges"
| "ValidRanges_loop (mapEntry # rest) ranges =
     (case find_range mapEntry ranges 0 of
        Some k \<Rightarrow>
          ValidRanges_loop rest
            (ranges[k := (ranges ! k)\<lparr>Endid := wrap64 (Endid (ranges ! k) + Maprange mapEntry)\<rparr>])
      | None \<Rightarrow>
          ValidRanges_loop rest
            (ranges @
             [\<lparr>range_Isuid = Isuid mapEntry, range_Isgid = Isgid mapEntry,
               Startid = Nsid mapEntry,
               Endid = wrap64 (wrap64 (Nsid mapEntry + Maprange mapEntry) - 1)\<rparr>]))"

definition ValidRanges :: "(Entry list \<Rightarrow> Entry list) \<Rightarrow> IdmapSet \<Rightarrow> error + IDRange list" where
  "ValidRanges sortSort m =
     (case DeepCopy m of
        Inl err \<Rightarrow> Inl err
      | Inr idmap \<Rightarrow> Inr (ValidRanges_loop (sortSort (Idmap idmap)) []))"

subsection \<open>Shifting\<close>

text \<open>
  The \<open>switch how\<close> of doShiftIntoNs: it assigns the temporary and \<open>err\<close> in the cases
  \<open>"in"\<close> and \<open>"out"\<close> and leaves both as they are otherwise. The temporary is read only
  when \<open>err\<close> is nil.
\<close>

definition shift_switch :: "string \<Rightarrow> Entry \<Rightarrow> int \<Rightarrow> int \<times> error option \<Rightarrow> int \<times> error option" where
  "shift_switch how e id' st =
     (if how = ''in'' then
        (case shiftIntoNS e id' of Inl err \<Rightarrow> (fst st, Some err) | Inr v \<Rightarrow> (v, None))
      else if how = ''out'' then
        (case shiftFromNS e id' of Inl err \<Rightarrow> (fst st, Some err) | Inr v \<Rightarrow> (v, None))
      else st)"

text \<open>One iteration of the loop of doShiftIntoNs on the pair \<open>(u, g)\<close>.\<close>

definition shift_step :: "string \<Rightarrow> int \<Rightarrow> int \<Rightarrow> Entry \<Rightarrow> int \<times> int \<Rightarrow> int \<times> int" where
  "shift_step how uid gid e ug =
     (let u = fst ug; g = snd ug;
          err0 = None;
          (u1, err1) =
            (if Isuid e \<and> u = - 1 then
               (let (tmpu, err) = shift_switch how e uid (0, err0)
                in (if err = None then tmpu else u, err))
             else (u, err0));
          (g1, err2) =
            (if Isgid e \<and> g = - 1 then
               (let (tmpg, err) = shift_switch how e gid (0, err1)
                in (if err = None then tmpg else g, err))
             else (g, err1))
      in (u1, g1))"

fun doShiftIntoNs_loop :: "string \<Rightarrow> int \<Rightarrow> int \<Rightarrow> Entry list \<Rightarrow> int \<times> int \<Rightarrow> int \<times> int" where
  "doShiftIntoNs_loop how uid gid [] ug = ug"
| "doShiftIntoNs_loop how uid gid (e # es) ug =
     doShiftIntoNs_loop how uid gid es (shift_step how uid gid e ug)"

definition doShiftIntoNs :: "IdmapSet \<Rightarrow> int \<Rightarrow> int \<Rightarrow> string \<Rightarrow> int \<times> int" where
  "doShiftIntoNs m uid gid how = doShiftIntoNs_loop how uid gid (Idmap m) (- 1, - 1)"

definition ShiftIntoNs :: "IdmapSet \<Rightarrow> int \<Rightarrow> int \<Rightarrow> int \<times> int" where
  "ShiftIntoNs m uid gid = doShiftIntoNs m uid gid ''in''"

definition ShiftFromNs :: "IdmapSet \<Rightarrow> int \<Rightarrow> int \<Rightarrow> int \<times> int" where
  "ShiftFromNs m uid gid = doShiftIntoNs m uid gid ''out''"

subsection \<open>JSON\<close>

text \<open>
  A Go slice is nil or holds a list. set.go can tell a nil \<open>Idmap\<close> from an empty one only
  through \<open>json.Marshal\<close>; everywhere else a set is modelled by its entries. JSONMarshal
  therefore takes the \<open>Idmap\<close> slice of its argument as Go has it.
\<close>

datatype 'a slice = NilSlice | Slice "'a list"

fun elems :: "'a slice \<Rightarrow> 'a list" where
  "elems NilSlice = []"
| "elems (Slice xs) = xs"

text \<open>
  \<open>json.Marshal\<close> and \<open>json.Unmarshal\<close> belong to the Go standard library. They are
  modelled at the type \<open>[]Entry\<close> after the documentation of \<open>encoding/json\<close>: a nil slice is
  written as \<open>null\<close>, any other slice as an array of objects without white space, a boolean as
  \<open>true\<close> or \<open>false\<close>, an integer in decimal. The declaration of \<open>Entry\<close> is not among the
  sources; the keys are the names of its fields, in the order of the positional literal in
  Equals.
\<close>

definition digit_char :: "nat \<Rightarrow> char" where
  "digit_char d = ''0123456789'' ! d"

fun show_nat :: "nat \<Rightarrow> string" where
  "show_nat n = (if n < 10 then [digit_char n] else show_nat (n div 10) @ [digit_char (n mod 10)])"

declare show_nat.simps [simp del]

definition show_int :: "int \<Rightarrow> string" where
  "show_int i = (if i < 0 then CHR ''-'' # show_nat (nat (- i)) else show_nat (nat i))"

definition show_bool :: "bool \<Rightarrow> string" where
  "show_bool b = (if b then ''true'' else ''false'')"

definition encode_entry :: "Entry \<Rightarrow> string" where
  \<open>encode_entry e =
     ''{"Isuid":'' @ show_bool (Isuid e) @ '',"Isgid":'' @ show_bool (Isgid e) @
     '',"Hostid":'' @ show_int (Hostid e) @ '',"Nsid":'' @ show_int (Nsid e) @
     '',"Maprange":'' @ show_int (Maprange e) @ ''}''\<close>

text \<open>The elements after the first, each behind its comma, and the closing bracket.\<close>

fun encode_rest :: "Entry list \<Rightarrow> string" where
  "encode_rest [] = '']''"
| "encode_rest (e # es) = '','' @ encode_entry e @ encode_rest es"

definition json_Marshal :: "Entry slice \<Rightarrow> error + string" where
  "json_Marshal v =
     (case v of
        NilSlice \<Rightarrow> Inr ''null''
      | Slice [] \<Rightarrow> Inr ''[]''
      | Slice (e # es) \<Rightarrow> Inr (''['' @ encode_entry e @ encode_rest es))"

text \<open>
  The decoder is modelled on the texts the encoder writes: it reads \<open>null\<close> and arrays of
  objects with the five keys in order and without white space, refuses a number with a
  leading zero or outside the 64-bit integers, and refuses any other text, among them
  texts that \<open>json.Unmarshal\<close> accepts (with white space, or with keys in another order).
  \<open>expect\<close> removes a literal from the front of the text.
\<close>

fun expect :: "string \<Rightarrow> string \<Rightarrow> string option" where
  "expect [] s = Some s"
| "expect (c # cs) [] = None"
| "expect (c # cs) (d # ds) = (if c = d then expect cs ds else None)"

definition parse_bool :: "string \<Rightarrow> (bool \<times> string) option" where
  "parse_bool s =
     (case expect ''true'' s of
        Some r \<Rightarrow> Some (True, r)
      | None \<Rightarrow> (case expect ''false'' s of Some r \<Rightarrow> Some (False, r) | None \<Rightarrow> None))"

definition is_digit :: "char \<Rightarrow> bool" where
  "is_digit c = (48 \<le> (of_char c :: nat) \<and> (of_char c :: nat) \<le> 57)"

definition digits_value :: "string \<Rightarrow> nat" where
  "digits_value ds = foldl (\<lambda>a c. 10 * a + (of_char c - 48)) 0 ds"

definition parse_nat :: "string \<Rightarrow> (nat \<times> string) option" where
  "parse_nat s =
     (let ds = takeWhile is_digit s
      in if ds = [] \<or> (1 < length ds \<and> hd ds = CHR ''0'') then None
         else Some (digits_value ds, dropWhile is_digit s))"

definition parse_int :: "string \<Rightarrow> (int \<times> string) option" where
  "parse_int s =
     (case s of
        [] \<Rightarrow> None
      | c # r \<Rightarrow>
          if c = CHR ''-'' then
            (case parse_nat r of
               None \<Rightarrow> None
             | Some (n, r') \<Rightarrow> if int64 (- int n) then Some (- int n, r') else None)
          else
            (case parse_nat s of
               None \<Rightarrow> None
             | Some (n, r') \<Rightarrow> if int64 (int n) then Some (int n, r') else None))"

definition parse_entry :: "string \<Rightarrow> (Entry \<times> string) option" where
  \<open>parse_entry s =
     Option.bind (expect ''{"Isuid":'' s) (\<lambda>s1.
     Option.bind (parse_bool s1) (\<lambda>(u, s2).
     Option.bind (expect '',"Isgid":'' s2) (\<lambda>s3.
     Option.bind (parse_bool s3) (\<lambda>(g, s4).
     Option.bind (expect '',"Hostid":'' s4) (\<lambda>s5.
     Option.bind (parse_int s5) (\<lambda>(h, s6).
     Option.bind (expect '',"Nsid":'' s6) (\<lambda>s7.
     Option.bind (parse_int s7) (\<lambda>(n, s8).
     Option.bind (expect '',"Maprange":'' s8) (\<lambda>s9.
     Option.bind (parse_int s9) (\<lambda>(r, s10).
     Option.bind (expect ''}'' s10) (\<lambda>s11.
       Some (\<lparr>Isuid = u, Isgid = g, Hostid = h, Nsid = n, Maprange = r\<rparr>, s11))))))))))))\<close>

text \<open>
  The elements after the first. Each round reads one element, so a number of rounds
  beyond the length of the text is never needed; with none left the text is refused.
\<close>

fun parse_rest :: "nat \<Rightarrow> string \<Rightarrow> Entry list \<Rightarrow> Entry list option" where
  "parse_rest 0 s acc = None"
| "parse_rest (Suc k) s acc =
     (if s = '']'' then Some acc
      else (case expect '','' s of
              None \<Rightarrow> None
            | Some r \<Rightarrow>
                (case parse_entry r of
                   None \<Rightarrow> None
                 | Some (e, r') \<Rightarrow> parse_rest k r' (acc @ [e]))))"

text \<open>
  \<open>json.Unmarshal\<close> into a slice variable holding \<open>dest\<close>: \<open>null\<close> leaves the variable as
  it is, an array replaces its value.
\<close>

definition json_Unmarshal :: "string \<Rightarrow> Entry slice \<Rightarrow> error + Entry slice" where
  "json_Unmarshal s dest =
     (if s = ''null'' then Inr dest
      else (case expect ''['' s of
              None \<Rightarrow> Inl ErrJSON
            | Some r \<Rightarrow>
                if r = '']'' then Inr (Slice [])
                else (case parse_entry r of
                        None \<Rightarrow> Inl ErrJSON
                      | Some (e, r') \<Rightarrow>
                          (case parse_rest (length s) r' [e] of
                             None \<Rightarrow> Inl ErrJSON
                           | Some xs \<Rightarrow> Inr (Slice xs)))))"

text \<open>
  JSONUnmarshal decodes into the \<open>Idmap\<close> of a new set, which is nil. Its result is a
  \<open>*IdmapSet\<close>: \<open>None\<close> for nil.
\<close>

definition JSONUnmarshal :: "string \<Rightarrow> error + IdmapSet option" where
  "JSONUnmarshal idmapJSON =
     (case json_Unmarshal idmapJSON NilSlice of
        Inl err \<Rightarrow> Inl err
      | Inr decoded \<Rightarrow>
          if length (elems decoded) = 0 then Inr None
          else Inr (Some \<lparr>Idmap = elems decoded\<rparr>))"

text \<open>
  The argument of JSONMarshal is \<open>None\<close> for a nil pointer and otherwise the \<open>Idmap\<close> slice
  of the set pointed to.
\<close>

definition JSONMarshal :: "Entry slice option \<Rightarrow> error + string" where
  "JSONMarshal idmapSet =
     (case idmapSet of
        None \<Rightarrow> Inl NilDereference
      | Some idmap \<Rightarrow>
          (case json_Marshal idmap of
             Inl err \<Rightarrow> Inl err
           | Inr idmapBytes \<Rightarrow> Inr idmapBytes))"

text \<open>The three integer fields of an entry are 64-bit values, as their Go type says.\<close>

definition int64_entry :: "Entry \<Rightarrow> bool" where
  "int64_entry e = (int64 (Hostid e) \<and> int64 (Nsid e) \<and> int64 (Maprange e))"

subsection \<open>Predicates on entry lists\<close>

text \<open>
  No two entries at different positions intersect in namespace IDs for a shared tag,
  respectively in host IDs for a shared tag.
\<close>

definition ns_disjoint :: "Entry list \<Rightarrow> bool" where
  "ns_disjoint xs = sorted_wrt (\<lambda>a b. \<not> Entry_Intersects a b) xs"

definition hosts_disjoint :: "Entry list \<Rightarrow> bool" where
  "hosts_disjoint xs = sorted_wrt (\<lambda>a b. \<not> Entry_HostidsIntersect a b) xs"

text \<open>
  The entries, in list order, tile the namespace interval \<open>[lo, hi]\<close>: each is non-empty
  and starts where the previous one ended.
\<close>

fun ns_tiles :: "int \<Rightarrow> Entry list \<Rightarrow> int \<Rightarrow> bool" where
  "ns_tiles lo [] hi = (lo = hi + 1)"
| "ns_tiles lo (e # es) hi = (0 < Maprange e \<and> Nsid e = lo \<and> ns_tiles (Nsid e + Maprange e) es hi)"

subsection \<open>Auxiliary notions for the statements\<close>

text \<open>
  The invariant of section 3 of the specification, in its own words: no two entries with
  the same tag combination have overlapping namespace-ID ranges, and no two entries have
  overlapping host-ID ranges for a shared tag.
\<close>

definition same_tags :: "Entry \<Rightarrow> Entry \<Rightarrow> bool" where
  "same_tags a b = (Isuid a = Isuid b \<and> Isgid a = Isgid b)"

definition insertion_invariant :: "Entry list \<Rightarrow> bool" where
  "insertion_invariant xs =
     sorted_wrt
       (\<lambda>a b. \<not> (same_tags a b \<and> ranges_overlap (Nsid a) (Maprange a) (Nsid b) (Maprange b))
            \<and> \<not> (shared_tag a b \<and> ranges_overlap (Hostid a) (Maprange a) (Hostid b) (Maprange b)))
       xs"



subsection \<open>Entries of the examples\<close>

text \<open>
  Shorthand for the entries written \<open>{uid, host=h, ns=n, range=r}\<close>,
  \<open>{gid, host=h, ns=n, range=r}\<close> and \<open>{uid, gid, host=h, ns=n, range=r}\<close>.
\<close>

abbreviation uid_entry :: "int \<Rightarrow> int \<Rightarrow> int \<Rightarrow> Entry" where
  "uid_entry host ns len \<equiv>
     \<lparr>Isuid = True, Isgid = False, Hostid = host, Nsid = ns, Maprange = len\<rparr>"

abbreviation gid_entry :: "int \<Rightarrow> int \<Rightarrow> int \<Rightarrow> Entry" where
  "gid_entry host ns len \<equiv>
     \<lparr>Isuid = False, Isgid = True, Hostid = host, Nsid = ns, Maprange = len\<rparr>"

abbreviation both_entry :: "int \<Rightarrow> int \<Rightarrow> int \<Rightarrow> Entry" where
  "both_entry host ns len \<equiv>
     \<lparr>Isuid = True, Isgid = True, Hostid = host, Nsid = ns, Maprange = len\<rparr>"

abbreviation uid_range :: "int \<Rightarrow> int \<Rightarrow> IDRange" where
  "uid_range start end' \<equiv>
     \<lparr>range_Isuid = True, range_Isgid = False, Startid = start, Endid = end'\<rparr>"

section \<open>Properties\<close>

subsection \<open>AddSafe and Append\<close>

lemma AddSafe_loop_fails_iff:
  "(AddSafe_loop i es result added = Inl err) =
   (err = ErrHostIDIsSubID \<and> (\<exists>e \<in> set es. Entry_Intersects e i \<and> Entry_HostidsIntersect e i))"
  by (induction es arbitrary: result added) auto

lemma AddSafe_fails_iff:
  "(snd (AddSafe m i) = Some err) =
   (err = ErrHostIDIsSubID \<and> (\<exists>e \<in> set (Idmap m). Entry_Intersects e i \<and> Entry_HostidsIntersect e i))"
  unfolding AddSafe_def using AddSafe_loop_fails_iff [of i "Idmap m" "[]" False err]
  by (auto split: sum.splits)

subsection \<open>Sorting\<close>

lemma mset_insert_by: "mset (insert_by lt x ys) = add_mset x (mset ys)"
  by (induction ys) auto

lemma set_insert_by: "set (insert_by lt x ys) = insert x (set ys)"
  by (induction ys) auto

lemma mset_foldl_insert_by:
  "mset (foldl (\<lambda>acc x. insert_by lt x acc) acc xs) = mset acc + mset xs"
  by (induction xs arbitrary: acc) (auto simp: mset_insert_by)

lemma sorted_insert_by:
  assumes asym: "\<And>a b. lt a b \<Longrightarrow> \<not> lt b a"
    and trans: "\<And>a b c. lt a b \<Longrightarrow> lt b c \<Longrightarrow> lt a c"
  shows "sorted_wrt (\<lambda>a b. \<not> lt b a) ys \<Longrightarrow> sorted_wrt (\<lambda>a b. \<not> lt b a) (insert_by lt x ys)"
proof (induction ys)
  case Nil
  then show ?case by simp
next
  case (Cons y ys)
  show ?case
  proof (cases "lt x y")
    case True
    have "\<forall>z \<in> set ys. \<not> lt z x"
    proof
      fix z assume "z \<in> set ys"
      with Cons.prems have "\<not> lt z y" by simp
      with True trans show "\<not> lt z x" by blast
    qed
    with True asym Cons.prems show ?thesis by simp
  next
    case False
    with Cons show ?thesis by (simp add: set_insert_by)
  qed
qed

lemma sorted_foldl_insert_by:
  assumes asym: "\<And>a b. lt a b \<Longrightarrow> \<not> lt b a"
    and trans: "\<And>a b c. lt a b \<Longrightarrow> lt b c \<Longrightarrow> lt a c"
  shows "sorted_wrt (\<lambda>a b. \<not> lt b a) acc \<Longrightarrow>
         sorted_wrt (\<lambda>a b. \<not> lt b a) (foldl (\<lambda>acc x. insert_by lt x acc) acc xs)"
proof (induction xs arbitrary: acc)
  case Nil
  then show ?case by simp
next
  case (Cons x xs)
  from sorted_insert_by [of lt acc x, OF asym trans Cons.prems]
  have "sorted_wrt (\<lambda>a b. \<not> lt b a) (insert_by lt x acc)" .
  from Cons.IH [OF this] show ?case by simp
qed

lemma Less_asym: "Less a b \<Longrightarrow> \<not> Less b a"
  by (auto simp: Less_def split: if_splits)

lemma Less_trans: "Less a b \<Longrightarrow> Less b c \<Longrightarrow> Less a c"
  by (auto simp: Less_def split: if_splits)

lemma insertion_sort_Less_contract: "sort_contract Less (insertion_sort Less)"
  unfolding sort_contract_def insertion_sort_def
  using sorted_foldl_insert_by [of Less "[]", OF Less_asym Less_trans]
  by (simp add: mset_foldl_insert_by)

lemma sort_contract_pair:
  assumes c: "sort_contract lt srt" and ab: "lt a b"
  shows "srt [a, b] = [a, b]" and "srt [b, a] = [a, b]"
proof -
  have key: "srt xs = [a, b]" if m: "mset xs = {#a, b#}" for xs
  proof -
    from c m have ms: "mset (srt xs) = {#a, b#}" and so: "sorted_wrt (\<lambda>a b. \<not> lt b a) (srt xs)"
      by (simp_all add: sort_contract_def)
    from ms have "length (srt xs) = 2"
      using size_mset [of "srt xs"] by simp
    then obtain x y where xy: "srt xs = [x, y]"
      by (cases "srt xs"; cases "tl (srt xs)"; auto)
    with ms have "(x = a \<and> y = b) \<or> (x = b \<and> y = a)"
      by (auto simp: add_eq_conv_ex)
    moreover from so xy have "\<not> lt y x" by simp
    ultimately show ?thesis using ab xy by auto
  qed
  show "srt [a, b] = [a, b]" by (rule key) simp
  show "srt [b, a] = [a, b]" by (rule key) simp
qed

lemma sort_contract_Nil: "sort_contract lt srt \<Longrightarrow> srt [] = []"
  by (simp add: sort_contract_def) (metis mset_zero_iff)

lemma Less_uid_gid: "Less (uid_entry h n r) (gid_entry h' n' r')"
  by (simp add: Less_def)

subsection \<open>Shifting\<close>

lemma shift_step_in:
  "shift_step ''in'' uid gid e (u, g) =
     (if Isuid e \<and> u = - 1 then (case shiftIntoNS e uid of Inr v \<Rightarrow> v | Inl err \<Rightarrow> u) else u,
      if Isgid e \<and> g = - 1 then (case shiftIntoNS e gid of Inr v \<Rightarrow> v | Inl err \<Rightarrow> g) else g)"
  by (auto simp: shift_step_def shift_switch_def split: sum.splits)

lemma shift_step_out:
  "shift_step ''out'' uid gid e (u, g) =
     (if Isuid e \<and> u = - 1 then (case shiftFromNS e uid of Inr v \<Rightarrow> v | Inl err \<Rightarrow> u) else u,
      if Isgid e \<and> g = - 1 then (case shiftFromNS e gid of Inr v \<Rightarrow> v | Inl err \<Rightarrow> g) else g)"
  by (auto simp: shift_step_def shift_switch_def split: sum.splits)







subsection \<open>JSON\<close>

lemma of_char_digit_char: "d < 10 \<Longrightarrow> (of_char (digit_char d) :: nat) = 48 + d"
proof -
  assume "d < 10"
  then consider "d = 0" | "d = 1" | "d = 2" | "d = 3" | "d = 4" | "d = 5" | "d = 6" | "d = 7"
    | "d = 8" | "d = 9" by atomize_elim arith
  then show ?thesis by cases (simp_all add: digit_char_def)
qed

lemma is_digit_digit_char: "d < 10 \<Longrightarrow> is_digit (digit_char d)"
  by (simp add: is_digit_def of_char_digit_char)

lemma digit_char_zero: "d < 10 \<Longrightarrow> (digit_char d = CHR ''0'') = (d = 0)"
proof -
  assume d: "d < 10"
  have "(digit_char d = CHR ''0'') = ((of_char (digit_char d) :: nat) = of_char (CHR ''0''))"
    by (simp only: of_char_eq_iff)
  also have "\<dots> = (d = 0)" using d by (simp add: of_char_digit_char)
  finally show ?thesis .
qed

lemma show_nat_digits: "list_all is_digit (show_nat n)"
proof (induction n rule: show_nat.induct)
  case (1 n)
  show ?case
  proof (cases "n < 10")
    case True
    then show ?thesis by (simp add: show_nat.simps [of n] is_digit_digit_char)
  next
    case False
    with 1 show ?thesis by (simp add: show_nat.simps [of n] is_digit_digit_char)
  qed
qed

lemma show_nat_not_Nil: "show_nat n \<noteq> []"
  by (simp add: show_nat.simps [of n])

lemma digits_value_snoc: "digits_value (ds @ [c]) = 10 * digits_value ds + (of_char c - 48)"
  by (simp add: digits_value_def)

lemma digits_value_show_nat: "digits_value (show_nat n) = n"
proof (induction n rule: show_nat.induct)
  case (1 n)
  show ?case
  proof (cases "n < 10")
    case True
    then show ?thesis
      by (simp add: show_nat.simps [of n] digits_value_def of_char_digit_char)
  next
    case False
    with 1 have "digits_value (show_nat (n div 10)) = n div 10" by simp
    with False show ?thesis
      by (simp add: show_nat.simps [of n] digits_value_snoc of_char_digit_char)
  qed
qed

lemma hd_show_nat: "0 < n \<Longrightarrow> hd (show_nat n) \<noteq> CHR ''0''"
proof (induction n rule: show_nat.induct)
  case (1 n)
  show ?case
  proof (cases "n < 10")
    case True
    with "1.prems" show ?thesis by (simp add: show_nat.simps [of n] digit_char_zero)
  next
    case False
    then have "0 < n div 10" by simp
    with 1 False have "hd (show_nat (n div 10)) \<noteq> CHR ''0''" by simp
    with False show ?thesis by (simp add: show_nat.simps [of n] show_nat_not_Nil)
  qed
qed

lemma length_show_nat: "1 < length (show_nat n) \<Longrightarrow> 0 < n"
  by (cases "n = 0") (simp_all add: show_nat.simps [of 0])

lemma no_digit_next: "rest = [] \<or> \<not> is_digit (hd rest) \<Longrightarrow> takeWhile is_digit rest = []"
  by (cases rest) auto

lemma no_digit_next': "rest = [] \<or> \<not> is_digit (hd rest) \<Longrightarrow> dropWhile is_digit rest = rest"
  by (cases rest) auto

lemma parse_nat_show_nat:
  assumes "rest = [] \<or> \<not> is_digit (hd rest)"
  shows "parse_nat (show_nat n @ rest) = Some (n, rest)"
proof -
  have all: "\<And>x. x \<in> set (show_nat n) \<Longrightarrow> is_digit x"
    using show_nat_digits [of n] by (simp add: list_all_iff)
  have tw: "takeWhile is_digit (show_nat n @ rest) = show_nat n"
    using all by (simp add: takeWhile_append2 no_digit_next [OF assms])
  have dw: "dropWhile is_digit (show_nat n @ rest) = rest"
    using all by (simp add: dropWhile_append2 no_digit_next' [OF assms])
  have lead: "\<not> (1 < length (show_nat n) \<and> hd (show_nat n) = CHR ''0'')"
    using length_show_nat [of n] hd_show_nat [of n] by blast
  show ?thesis
    using lead by (simp add: parse_nat_def Let_def tw dw show_nat_not_Nil digits_value_show_nat)
qed

lemma show_nat_not_minus: "show_nat n = c # cs \<Longrightarrow> c \<noteq> CHR ''-''"
proof
  assume a: "show_nat n = c # cs" and m: "c = CHR ''-''"
  from a show_nat_digits [of n] have "is_digit c" by simp
  with m show False by (simp add: is_digit_def)
qed

lemma parse_int_show_int:
  assumes r: "rest = [] \<or> \<not> is_digit (hd rest)" and i: "int64 i"
  shows "parse_int (show_int i @ rest) = Some (i, rest)"
proof (cases "i < 0")
  case True
  then have "- int (nat (- i)) = i" by simp
  with True i show ?thesis
    by (simp add: parse_int_def show_int_def parse_nat_show_nat [OF r])
next
  case False
  obtain c cs where cs: "show_nat (nat i) = c # cs"
    using show_nat_not_Nil [of "nat i"] by (cases "show_nat (nat i)") auto
  from show_nat_not_minus [OF cs] have nm: "c \<noteq> CHR ''-''" .
  have "parse_nat (c # cs @ rest) = Some (nat i, rest)"
    using parse_nat_show_nat [OF r, of "nat i"] cs by simp
  with False i nm show ?thesis
    by (simp add: parse_int_def show_int_def cs)
qed

lemma parse_bool_show_bool: "parse_bool (show_bool b @ rest) = Some (b, rest)"
  by (simp add: parse_bool_def show_bool_def)

lemma not_digit_comma: "\<not> is_digit (CHR '','')" and not_digit_brace: "\<not> is_digit (CHR ''}'')"
  by (simp_all add: is_digit_def)

lemma parse_entry_encode_entry:
  assumes "int64_entry e"
  shows "parse_entry (encode_entry e @ rest) = Some (e, rest)"
proof -
  from assms have h: "int64 (Hostid e)" and n: "int64 (Nsid e)" and r: "int64 (Maprange e)"
    by (simp_all add: int64_entry_def)
  have ph: "\<And>t. parse_int (show_int (Hostid e) @ CHR '','' # t) = Some (Hostid e, CHR '','' # t)"
    by (rule parse_int_show_int [OF _ h]) (simp add: not_digit_comma)
  have pn: "\<And>t. parse_int (show_int (Nsid e) @ CHR '','' # t) = Some (Nsid e, CHR '','' # t)"
    by (rule parse_int_show_int [OF _ n]) (simp add: not_digit_comma)
  have pr: "\<And>t. parse_int (show_int (Maprange e) @ CHR ''}'' # t) = Some (Maprange e, CHR ''}'' # t)"
    by (rule parse_int_show_int [OF _ r]) (simp add: not_digit_brace)
  show ?thesis
    by (simp add: parse_entry_def encode_entry_def parse_bool_show_bool ph pn pr)
qed

lemma length_encode_rest: "length es < length (encode_rest es)"
  by (induction es) auto

lemma parse_rest_encode_rest:
  "list_all int64_entry es \<Longrightarrow> length es < fuel \<Longrightarrow>
   parse_rest fuel (encode_rest es) acc = Some (acc @ es)"
proof (induction es arbitrary: fuel acc)
  case Nil
  then obtain k where "fuel = Suc k" by (cases fuel) auto
  then show ?case by simp
next
  case (Cons e es)
  then obtain k where k: "fuel = Suc k" by (cases fuel) auto
  from Cons.prems have e: "int64_entry e" and es: "list_all int64_entry es" and l: "length es < k"
    by (simp_all add: k)
  from Cons.IH [OF es l, of "acc @ [e]"] show ?case
    by (simp add: k parse_entry_encode_entry [OF e])
qed

lemma json_round_trip:
  assumes "list_all int64_entry (elems v)"
  shows "\<exists>out. json_Marshal v = Inr out \<and> json_Unmarshal out NilSlice = Inr v"
proof (cases v)
  case NilSlice
  then show ?thesis by (simp add: json_Marshal_def json_Unmarshal_def)
next
  case (Slice xs)
  show ?thesis
  proof (cases xs)
    case Nil
    with Slice show ?thesis by (simp add: json_Marshal_def json_Unmarshal_def)
  next
    case (Cons e es)
    from assms Slice Cons have e: "int64_entry e" and es: "list_all int64_entry es" by simp_all
    let ?text = "''['' @ encode_entry e @ encode_rest es"
    have m: "json_Marshal v = Inr ?text" by (simp add: json_Marshal_def Slice Cons)
    have ne: "encode_entry e @ encode_rest es \<noteq> '']''"
      by (simp add: encode_entry_def)
    have fuel: "length es < length ?text"
      using length_encode_rest [of es] by simp
    have "json_Unmarshal ?text NilSlice = Inr (Slice (e # es))"
      using ne parse_rest_encode_rest [OF es fuel, of "[e]"]
      by (simp add: json_Unmarshal_def parse_entry_encode_entry [OF e])
    with m Slice Cons show ?thesis by simp
  qed
qed

section \<open>The claims\<close>

lemmas entry_defs = Entry_Intersects_def Entry_HostidsIntersect_def shared_tag_def ranges_overlap_def

text \<open>
  C1 asks that every successful AddSafe keeps the invariant of the set. The set
  \<open>{uid, host=0, ns=0, range=10}\<close>, \<open>{uid, host=100, ns=10, range=10}\<close> is built by two calls
  of AddSafe on the empty set and satisfies the invariant. AddSafe of
  \<open>{uid, host=200, ns=5, range=10}\<close> succeeds on it and stores the new entry twice, so that the
  result holds two entries with the same tags, the same namespace range and the same host
  range: the invariant is lost.
\<close>

theorem AddSafe_breaks_invariant:
  "AddSafe \<lparr>Idmap = []\<rparr> (uid_entry 0 0 10) = (\<lparr>Idmap = [uid_entry 0 0 10]\<rparr>, None)
   \<and> AddSafe \<lparr>Idmap = [uid_entry 0 0 10]\<rparr> (uid_entry 100 10 10)
     = (\<lparr>Idmap = [uid_entry 0 0 10, uid_entry 100 10 10]\<rparr>, None)
   \<and> insertion_invariant [uid_entry 0 0 10, uid_entry 100 10 10]
   \<and> snd (AddSafe \<lparr>Idmap = [uid_entry 0 0 10, uid_entry 100 10 10]\<rparr> (uid_entry 200 5 10)) = None
   \<and> Idmap (fst (AddSafe \<lparr>Idmap = [uid_entry 0 0 10, uid_entry 100 10 10]\<rparr> (uid_entry 200 5 10)))
       ! 1 = uid_entry 200 5 10
   \<and> Idmap (fst (AddSafe \<lparr>Idmap = [uid_entry 0 0 10, uid_entry 100 10 10]\<rparr> (uid_entry 200 5 10)))
       ! 2 = uid_entry 200 5 10
   \<and> \<not> insertion_invariant
        (Idmap (fst (AddSafe \<lparr>Idmap = [uid_entry 0 0 10, uid_entry 100 10 10]\<rparr> (uid_entry 200 5 10))))"
  by (simp add: AddSafe_def split_around_def lower_of_def upper_of_def wrap64_def entry_defs
      insertion_invariant_def same_tags_def)

text \<open>
  C2 asks for the new entry to appear exactly once in the result of AddSafe, also when it
  intersects two or more existing entries. AddSafe appends it once for each intersecting
  entry: with \<open>{uid, host=0, ns=0, range=10}\<close> and \<open>{uid, host=100, ns=10, range=10}\<close> in the
  set, adding \<open>{uid, host=200, ns=5, range=10}\<close> leaves four entries, the new one twice.
\<close>

theorem AddSafe_inserts_twice:
  "AddSafe \<lparr>Idmap = [uid_entry 0 0 10, uid_entry 100 10 10]\<rparr>
      (uid_entry 200 5 10)
   = (\<lparr>Idmap = [uid_entry 0 0 5, uid_entry 200 5 10, uid_entry 200 5 10, uid_entry 105 15 5]\<rparr>, None)
   \<and> count_list (Idmap (fst (AddSafe
        \<lparr>Idmap = [uid_entry 0 0 10, uid_entry 100 10 10]\<rparr>
        (uid_entry 200 5 10))))
        (uid_entry 200 5 10) = 2"
  by (simp add: AddSafe_def split_around_def lower_of_def upper_of_def wrap64_def entry_defs)

text \<open>
  C3. A failing mutation leaves the set as it was. AddSafe fails exactly with
  \<open>ErrHostIDIsSubID\<close>, and it does so whenever some existing entry intersects the new one in
  namespace IDs and in host IDs; the set returned is then the set given. Append returns the
  set given together with the error of the parser when parsing fails, and together with
  the conflict error when the parsed entry intersects an entry of the set.
\<close>

theorem failed_mutation_leaves_set:
  "((\<exists>e \<in> set (Idmap m). Entry_Intersects e i \<and> Entry_HostidsIntersect e i)
      \<longrightarrow> AddSafe m i = (m, Some ErrHostIDIsSubID))
   \<and> (snd (AddSafe m i) \<noteq> None \<longrightarrow> AddSafe m i = (m, Some ErrHostIDIsSubID))
   \<and> (parse s = Inl err \<longrightarrow> Append parse m s = (m, Some err))
   \<and> (parse s = Inr e \<and> Intersects m e \<longrightarrow> Append parse m s = (m, Some ErrConflictingMapping))
   \<and> (snd (Append parse m s) \<noteq> None \<longrightarrow> fst (Append parse m s) = m)"
proof (intro conjI impI)
  assume "\<exists>e \<in> set (Idmap m). Entry_Intersects e i \<and> Entry_HostidsIntersect e i"
  then have "snd (AddSafe m i) = Some ErrHostIDIsSubID"
    by (simp add: AddSafe_fails_iff)
  then show "AddSafe m i = (m, Some ErrHostIDIsSubID)"
    by (auto simp: AddSafe_def split: sum.splits)
next
  assume "snd (AddSafe m i) \<noteq> None"
  then obtain err where e: "snd (AddSafe m i) = Some err" by auto
  then have "err = ErrHostIDIsSubID" by (simp add: AddSafe_fails_iff)
  with e show "AddSafe m i = (m, Some ErrHostIDIsSubID)"
    by (auto simp: AddSafe_def split: sum.splits)
next
  assume "parse s = Inl err"
  then show "Append parse m s = (m, Some err)" by (simp add: Append_def Append_parsed_def)
next
  assume "parse s = Inr e \<and> Intersects m e"
  then show "Append parse m s = (m, Some ErrConflictingMapping)"
    by (simp add: Append_def Append_parsed_def)
next
  assume "snd (Append parse m s) \<noteq> None"
  then show "fst (Append parse m s) = m"
    by (auto simp: Append_def Append_parsed_def split: sum.splits if_splits)
qed

theorem failed_mutation_leaves_set_witness:
  "Entry_Intersects (uid_entry 100 10 10) (uid_entry 105 5 10)
   \<and> Entry_HostidsIntersect (uid_entry 100 10 10) (uid_entry 105 5 10)
   \<and> AddSafe \<lparr>Idmap = [uid_entry 0 0 10, uid_entry 100 10 10]\<rparr> (uid_entry 105 5 10)
     = (\<lparr>Idmap = [uid_entry 0 0 10, uid_entry 100 10 10]\<rparr>, Some ErrHostIDIsSubID)
   \<and> Append (\<lambda>s. if s = ''u:5:105:10'' then Inr (uid_entry 105 5 10) else Inl ErrParse)
        \<lparr>Idmap = [uid_entry 0 0 10]\<rparr> ''u:5:105:10''
     = (\<lparr>Idmap = [uid_entry 0 0 10]\<rparr>, Some ErrConflictingMapping)
   \<and> Append (\<lambda>s. if s = ''u:5:105:10'' then Inr (uid_entry 105 5 10) else Inl ErrParse)
        \<lparr>Idmap = [uid_entry 0 0 10]\<rparr> ''u 5 105''
     = (\<lparr>Idmap = [uid_entry 0 0 10]\<rparr>, Some ErrParse)"
proof -
  let ?p = "\<lambda>s. if s = ''u:5:105:10'' then Inr (uid_entry 105 5 10) else Inl ErrParse"
  let ?m = "\<lparr>Idmap = [uid_entry 0 0 10, uid_entry 100 10 10]\<rparr>"
  let ?m1 = "\<lparr>Idmap = [uid_entry 0 0 10]\<rparr>"
  let ?i = "uid_entry 105 5 10"
  have i: "Entry_Intersects (uid_entry 100 10 10) ?i" "Entry_HostidsIntersect (uid_entry 100 10 10) ?i"
    by (simp_all add: entry_defs)
  then have ex: "\<exists>e \<in> set (Idmap ?m). Entry_Intersects e ?i \<and> Entry_HostidsIntersect e ?i"
    by simp
  have bad: "?p ''u 5 105'' = Inl ErrParse" by simp
  have good: "?p ''u:5:105:10'' = Inr ?i \<and> Intersects ?m1 ?i" by (simp add: entry_defs)
  from failed_mutation_leaves_set [of ?m ?i ?p "''u 5 105''" ErrParse ?i] ex
  have a: "AddSafe ?m ?i = (?m, Some ErrHostIDIsSubID)" by blast
  from failed_mutation_leaves_set [of ?m1 ?i ?p "''u 5 105''" ErrParse ?i] bad
  have b: "Append ?p ?m1 ''u 5 105'' = (?m1, Some ErrParse)" by blast
  from failed_mutation_leaves_set [of ?m1 ?i ?p "''u:5:105:10''" ErrParse ?i] good
  have c: "Append ?p ?m1 ''u:5:105:10'' = (?m1, Some ErrConflictingMapping)" by blast
  from i a b c show ?thesis by blast
qed

text \<open>
  C4. Starting from the single entry \<open>{uid, host=0, ns=0, range=100}\<close>, AddSafe of
  \<open>{uid, host=200, ns=40, range=10}\<close> succeeds and leaves exactly the three entries
  \<open>{uid, host=0, ns=0, range=40}\<close>, \<open>{uid, host=200, ns=40, range=10}\<close>,
  \<open>{uid, host=50, ns=50, range=50}\<close> in this order. Their namespace ranges tile
  \<open>[0,99]\<close> without gap or overlap, and their host ranges are pairwise disjoint.
\<close>

theorem AddSafe_split_example:
  "AddSafe \<lparr>Idmap = [uid_entry 0 0 100]\<rparr>
      (uid_entry 200 40 10)
   = (\<lparr>Idmap = [uid_entry 0 0 40, uid_entry 200 40 10, uid_entry 50 50 50]\<rparr>, None)
   \<and> ns_tiles 0 [uid_entry 0 0 40, uid_entry 200 40 10, uid_entry 50 50 50] 99
   \<and> ns_disjoint [uid_entry 0 0 40, uid_entry 200 40 10, uid_entry 50 50 50]
   \<and> hosts_disjoint [uid_entry 0 0 40, uid_entry 200 40 10, uid_entry 50 50 50]"
  by (simp add: AddSafe_def split_around_def lower_of_def upper_of_def wrap64_def
      ns_disjoint_def hosts_disjoint_def
      Entry_Intersects_def Entry_HostidsIntersect_def shared_tag_def ranges_overlap_def)

text \<open>
  C5. For every sorting function that meets the contract of \<open>sort.Sort\<close>, the set with the
  one combined entry \<open>{uid, gid, host=100, ns=0, range=10}\<close> equals the set with the two
  entries \<open>{uid, host=100, ns=0, range=10}\<close> and \<open>{gid, host=100, ns=0, range=10}\<close>, in either
  order of the two; and a nil set and an empty set are equal to each other.
\<close>

theorem Equals_combined_split:
  "sort_contract Less sortSort \<Longrightarrow>
   Equals sortSort (Some \<lparr>Idmap = [both_entry 100 0 10]\<rparr>)
     (Some \<lparr>Idmap = [uid_entry 100 0 10, gid_entry 100 0 10]\<rparr>)
   \<and> Equals sortSort (Some \<lparr>Idmap = [both_entry 100 0 10]\<rparr>)
     (Some \<lparr>Idmap = [gid_entry 100 0 10, uid_entry 100 0 10]\<rparr>)
   \<and> Equals sortSort (Some \<lparr>Idmap = [uid_entry 100 0 10, gid_entry 100 0 10]\<rparr>)
     (Some \<lparr>Idmap = [both_entry 100 0 10]\<rparr>)
   \<and> Equals sortSort (Some \<lparr>Idmap = [gid_entry 100 0 10, uid_entry 100 0 10]\<rparr>)
     (Some \<lparr>Idmap = [both_entry 100 0 10]\<rparr>)
   \<and> Equals sortSort None (Some \<lparr>Idmap = []\<rparr>)
   \<and> Equals sortSort (Some \<lparr>Idmap = []\<rparr>) None
   \<and> Equals sortSort None None
   \<and> Equals sortSort (Some \<lparr>Idmap = []\<rparr>) (Some \<lparr>Idmap = []\<rparr>)"
proof -
  assume c: "sort_contract Less sortSort"
  note p = sort_contract_pair [OF c Less_uid_gid [of 100 0 10 100 0 10]]
  show ?thesis
    by (simp add: Equals_def expandSortIdmap_def p)
qed

theorem Equals_combined_split_witness:
  "sort_contract Less (insertion_sort Less)
   \<and> Equals (insertion_sort Less) (Some \<lparr>Idmap = [both_entry 100 0 10]\<rparr>)
     (Some \<lparr>Idmap = [gid_entry 100 0 10, uid_entry 100 0 10]\<rparr>)
   \<and> Equals (insertion_sort Less) None (Some \<lparr>Idmap = []\<rparr>)"
  using Equals_combined_split [OF insertion_sort_Less_contract] insertion_sort_Less_contract
  by blast

text \<open>
  C6. For every sorting function that meets the contract of \<open>sort.Sort\<close> and all host IDs
  \<open>h1\<close>, \<open>h2\<close>: ValidRanges of \<open>{uid, ns=0, range=10}\<close> and \<open>{uid, ns=10, range=5}\<close> is the one
  range from 0 to 14, and ValidRanges of \<open>{uid, ns=0, range=10}\<close> and
  \<open>{uid, ns=20, range=5}\<close> is the two ranges \<open>[0,9]\<close> and \<open>[20,24]\<close>, in whichever order the
  two entries are stored.
\<close>

theorem ValidRanges_merges_contiguous:
  "sort_contract Less sortSort \<Longrightarrow>
   ValidRanges sortSort \<lparr>Idmap = [uid_entry h1 0 10, uid_entry h2 10 5]\<rparr> = Inr [uid_range 0 14]
   \<and> ValidRanges sortSort \<lparr>Idmap = [uid_entry h2 10 5, uid_entry h1 0 10]\<rparr> = Inr [uid_range 0 14]
   \<and> ValidRanges sortSort \<lparr>Idmap = [uid_entry h1 0 10, uid_entry h2 20 5]\<rparr>
       = Inr [uid_range 0 9, uid_range 20 24]
   \<and> ValidRanges sortSort \<lparr>Idmap = [uid_entry h2 20 5, uid_entry h1 0 10]\<rparr>
       = Inr [uid_range 0 9, uid_range 20 24]"
proof -
  assume c: "sort_contract Less sortSort"
  have l1: "Less (uid_entry h1 0 10) (uid_entry h2 10 5)" by (simp add: Less_def)
  have l2: "Less (uid_entry h1 0 10) (uid_entry h2 20 5)" by (simp add: Less_def)
  note p1 = sort_contract_pair [OF c l1]
  note p2 = sort_contract_pair [OF c l2]
  show ?thesis
    by (simp add: ValidRanges_def DeepCopy_def p1 p2 wrap64_def)
qed

theorem ValidRanges_merges_contiguous_witness:
  "sort_contract Less (insertion_sort Less)
   \<and> ValidRanges (insertion_sort Less) \<lparr>Idmap = [uid_entry 1000 0 10, uid_entry 5000 10 5]\<rparr>
       = Inr [uid_range 0 14]
   \<and> ValidRanges (insertion_sort Less) \<lparr>Idmap = [uid_entry 1000 0 10, uid_entry 5000 20 5]\<rparr>
       = Inr [uid_range 0 9, uid_range 20 24]"
  using ValidRanges_merges_contiguous [OF insertion_sort_Less_contract, of 1000 5000]
    insertion_sort_Less_contract
  by blast




text \<open>
  C8 does not hold as stated: a set without entries is not always written as an empty
  array. For a set whose \<open>Idmap\<close> is nil, as in \<open>&IdmapSet{}\<close>, JSONMarshal returns \<open>null\<close>.
\<close>

theorem JSON_nil_counterexample:
  "elems (NilSlice :: Entry slice) = []
   \<and> JSONMarshal (Some NilSlice) = Inr ''null''
   \<and> JSONMarshal (Some NilSlice) \<noteq> Inr ''[]''"
  by (simp add: JSONMarshal_def json_Marshal_def)

text \<open>
  C8, amended. For every set, JSONMarshal succeeds, JSONUnmarshal succeeds on its output,
  and the result equals the set under Equals, for any sorting function. When the set has
  no entries, the text is \<open>[]\<close> for an empty \<open>Idmap\<close> and \<open>null\<close> for a nil one, and in both
  cases JSONUnmarshal returns nil; otherwise it returns a set with the same entries.
\<close>

theorem JSON_round_trip:
  "list_all int64_entry (elems idmap) \<Longrightarrow>
   \<exists>out r. JSONMarshal (Some idmap) = Inr out \<and> JSONUnmarshal out = Inr r
     \<and> Equals sortSort (Some \<lparr>Idmap = elems idmap\<rparr>) r
     \<and> (elems idmap = [] \<longrightarrow> r = None)
     \<and> (elems idmap \<noteq> [] \<longrightarrow> r = Some \<lparr>Idmap = elems idmap\<rparr>)
     \<and> (idmap = Slice [] \<longrightarrow> out = ''[]'')
     \<and> (idmap = NilSlice \<longrightarrow> out = ''null'')"
proof -
  assume "list_all int64_entry (elems idmap)"
  from json_round_trip [OF this] obtain out where
    m: "json_Marshal idmap = Inr out" and u: "json_Unmarshal out NilSlice = Inr idmap" by blast
  let ?r = "if elems idmap = [] then None else Some \<lparr>Idmap = elems idmap\<rparr>"
  have a1: "JSONMarshal (Some idmap) = Inr out" by (simp add: JSONMarshal_def m)
  have a2: "JSONUnmarshal out = Inr ?r" by (simp add: JSONUnmarshal_def u)
  have a3: "Equals sortSort (Some \<lparr>Idmap = elems idmap\<rparr>) ?r"
    by (simp add: Equals_def expandSortIdmap_def)
  have a4: "idmap = Slice [] \<longrightarrow> out = ''[]''" using m by (auto simp: json_Marshal_def)
  have a5: "idmap = NilSlice \<longrightarrow> out = ''null''" using m by (auto simp: json_Marshal_def)
  from a1 a2 a3 a4 a5 show ?thesis by (intro exI [of _ out] exI [of _ ?r]) simp
qed

theorem JSON_round_trip_witness:
  \<open>list_all int64_entry [uid_entry 1000 0 10, gid_entry 2000 0 (- 5)]
   \<and> JSONMarshal (Some (Slice [uid_entry 1000 0 10, gid_entry 2000 0 (- 5)]))
     = Inr ''[{"Isuid":true,"Isgid":false,"Hostid":1000,"Nsid":0,"Maprange":10},{"Isuid":false,"Isgid":true,"Hostid":2000,"Nsid":0,"Maprange":-5}]''
   \<and> JSONUnmarshal
       ''[{"Isuid":true,"Isgid":false,"Hostid":1000,"Nsid":0,"Maprange":10},{"Isuid":false,"Isgid":true,"Hostid":2000,"Nsid":0,"Maprange":-5}]''
     = Inr (Some \<lparr>Idmap = [uid_entry 1000 0 10, gid_entry 2000 0 (- 5)]\<rparr>)
   \<and> JSONMarshal (Some (Slice [])) = Inr ''[]''
   \<and> JSONUnmarshal ''[]'' = Inr None
   \<and> JSONUnmarshal ''null'' = Inr None\<close>
proof -
  let ?xs = "[uid_entry 1000 0 10, gid_entry 2000 0 (- 5)]"
  let ?text = \<open>''[{"Isuid":true,"Isgid":false,"Hostid":1000,"Nsid":0,"Maprange":10},{"Isuid":false,"Isgid":true,"Hostid":2000,"Nsid":0,"Maprange":-5}]''\<close>
  have t: "list_all int64_entry (elems (Slice ?xs))"
    by (simp add: int64_entry_def int64_def)
  have m: "JSONMarshal (Some (Slice ?xs)) = Inr ?text"
    by (simp add: JSONMarshal_def json_Marshal_def encode_entry_def show_bool_def show_int_def
        show_nat.simps digit_char_def)
  from JSON_round_trip [OF t, of "insertion_sort Less"] m
  have u: "JSONUnmarshal ?text = Inr (Some \<lparr>Idmap = ?xs\<rparr>)" by auto
  have t0: "list_all int64_entry (elems (Slice []))" "list_all int64_entry (elems NilSlice)"
    by simp_all
  from JSON_round_trip [OF t0(1), of "insertion_sort Less"]
  have e: "JSONMarshal (Some (Slice [])) = Inr ''[]''" "JSONUnmarshal ''[]'' = Inr None" by auto
  from JSON_round_trip [OF t0(2), of "insertion_sort Less"]
  have n: "JSONUnmarshal ''null'' = Inr None" by auto
  from t m u e n show ?thesis by simp
qed

text \<open>
  C10. The value \<open>-1\<close> is both the result for "no mapping" and a possible result of a
  shift. \<open>{uid, host=0, ns=-6, range=10}\<close> shifts the host uid 5 to \<open>-1\<close>; the set holding
  only this entry answers as the empty set does. With \<open>{uid, host=0, ns=100, range=10}\<close>
  stored after it, the scan goes on past the successful first entry and returns 105 from
  the second. The same happens for GIDs in ShiftFromNs with a negative host ID.
\<close>

theorem sentinel_overloaded:
  "shiftIntoNS (uid_entry 0 (- 6) 10) 5 = Inr (- 1)
   \<and> ShiftIntoNs \<lparr>Idmap = [uid_entry 0 (- 6) 10]\<rparr> 5 0 = (- 1, - 1)
   \<and> ShiftIntoNs \<lparr>Idmap = []\<rparr> 5 0 = (- 1, - 1)
   \<and> shiftIntoNS (uid_entry 0 100 10) 5 = Inr 105
   \<and> ShiftIntoNs \<lparr>Idmap = [uid_entry 0 (- 6) 10, uid_entry 0 100 10]\<rparr> 5 0 = (105, - 1)
   \<and> shiftFromNS (gid_entry (- 1) 7 1) 7 = Inr (- 1)
   \<and> ShiftFromNs \<lparr>Idmap = [gid_entry (- 1) 7 1, gid_entry 40 0 10]\<rparr> 0 7 = (- 1, 47)"
  by (simp add: ShiftIntoNs_def ShiftFromNs_def doShiftIntoNs_def shift_step_in shift_step_out
      shiftIntoNS_def shiftFromNS_def wrap64_def)

end
